theory Spec2Isabelle
  imports Main "HOL-Library.Sublist" "HOL-Library.Word"
begin

unbundle bit_operations_syntax

section \<open>Python strings\<close>

text \<open>
  A Python \<open>str\<close> is a sequence of code points. It is modelled as a \<^typ>\<open>string\<close>, each
  \<^typ>\<open>char\<close> read as one code point below 256, so \<^const>\<open>length\<close> is Python's \<open>len\<close>.
\<close>

definition cp :: "char \<Rightarrow> nat" where
  "cp c = of_char c"

text \<open>
  \<open>str.isspace\<close> on one code point; \<open>str.strip()\<close> removes exactly these from both
  ends. Below 256 they are U+0009..U+000D, U+001C..U+0020, U+0085 and U+00A0.
\<close>

definition isspace_char :: "char \<Rightarrow> bool" where
  "isspace_char c =
     ((9 \<le> cp c \<and> cp c \<le> 13) \<or> (28 \<le> cp c \<and> cp c \<le> 32) \<or> cp c = 133 \<or> cp c = 160)"

text \<open>
  \<open>str.isdigit\<close> on one code point: the decimal digits and, below 256, the superscript
  digits U+00B2, U+00B3 and U+00B9.
\<close>

definition isdigit_char :: "char \<Rightarrow> bool" where
  "isdigit_char c =
     ((48 \<le> cp c \<and> cp c \<le> 57) \<or> cp c = 178 \<or> cp c = 179 \<or> cp c = 185)"

text \<open>\<open>s.isdigit()\<close>: false on the empty string.\<close>

definition isdigit :: "string \<Rightarrow> bool" where
  "isdigit s = (s \<noteq> [] \<and> list_all isdigit_char s)"

definition lstrip :: "string \<Rightarrow> string" where
  "lstrip s = dropWhile isspace_char s"

definition rstrip :: "string \<Rightarrow> string" where
  "rstrip s = rev (dropWhile isspace_char (rev s))"

text \<open>\<open>s.strip()\<close>\<close>

definition strip :: "string \<Rightarrow> string" where
  "strip s = rstrip (lstrip s)"

text \<open>\<open>s.startswith(p)\<close>\<close>

definition startswith :: "string \<Rightarrow> string \<Rightarrow> bool" where
  "startswith s p = prefix p s"

text \<open>\<open>sub in s\<close> for strings: \<open>sub\<close> occurs in \<open>s\<close> as a contiguous substring.\<close>

fun contains :: "string \<Rightarrow> string \<Rightarrow> bool" where
  "contains [] sub = (sub = [])"
| "contains (c # cs) sub = (prefix sub (c # cs) \<or> contains cs sub)"

text \<open>
  \<open>s.replace(old, new)\<close>: the occurrences of \<open>old\<close> are found from left to right and do
  not overlap. With an empty \<open>old\<close> Python puts \<open>new\<close> before every character and at the
  end.
\<close>

function replace :: "string \<Rightarrow> string \<Rightarrow> string \<Rightarrow> string" where
  "replace [] old new = (if old = [] then new else [])"
| "replace (c # cs) old new =
     (if old = [] then new @ c # replace cs old new
      else if prefix old (c # cs) then new @ replace (drop (length old) (c # cs)) old new
      else c # replace cs old new)"
  by pat_completeness auto
termination
  by (relation "measure (\<lambda>(s, old, new). length s)") auto

text \<open>
  \<open>s.find(sub)\<close> and \<open>s.rfind(sub)\<close>: the lowest and the highest index where \<open>sub\<close>
  occurs, \<open>-1\<close> when it does not. The second argument counts the characters already passed.
\<close>

fun find_from :: "nat \<Rightarrow> string \<Rightarrow> string \<Rightarrow> int" where
  "find_from i [] sub = (if sub = [] then int i else - 1)"
| "find_from i (c # cs) sub =
     (if prefix sub (c # cs) then int i else find_from (Suc i) cs sub)"

definition str_find :: "string \<Rightarrow> string \<Rightarrow> int" where
  "str_find s sub = find_from 0 s sub"

fun rfind_from :: "nat \<Rightarrow> string \<Rightarrow> string \<Rightarrow> int" where
  "rfind_from i [] sub = (if sub = [] then int i else - 1)"
| "rfind_from i (c # cs) sub =
     (let r = rfind_from (Suc i) cs sub
      in if r \<noteq> - 1 then r else if prefix sub (c # cs) then int i else - 1)"

definition str_rfind :: "string \<Rightarrow> string \<Rightarrow> int" where
  "str_rfind s sub = rfind_from 0 s sub"

text \<open>
  \<open>s[i:j]\<close>: a negative index counts from the end, both indices are clamped to
  \<open>0..len(s)\<close>, and the slice is empty when the upper index is not above the lower one.
\<close>

definition slice_index :: "nat \<Rightarrow> int \<Rightarrow> nat" where
  "slice_index n i = (if i < 0 then nat (int n + i) else min (nat i) n)"

definition str_slice :: "string \<Rightarrow> int \<Rightarrow> int \<Rightarrow> string" where
  "str_slice s i j =
     (let lo = slice_index (length s) i; hi = slice_index (length s) j
      in take (hi - lo) (drop lo s))"

section \<open>JSON values\<close>

text \<open>
  What \<open>json.loads\<close> returns: \<open>None\<close>, a \<open>bool\<close>, an \<open>int\<close>, a \<open>float\<close> (kept as the 64
  bits of the double), a \<open>str\<close>, a \<open>list\<close> or a \<open>dict\<close> with string keys. A \<open>dict\<close> is an
  association list in insertion order with distinct keys.
\<close>

datatype json =
    JNull
  | JBool bool
  | JInt int
  | JFloat "64 word"
  | JStr string
  | JList "json list"
  | JDict "(string \<times> json) list"

text \<open>
  \<open>d[k] = v\<close>: an existing key keeps its place and takes the new value, a new key goes to
  the end.
\<close>

fun dict_set :: "(string \<times> json) list \<Rightarrow> string \<Rightarrow> json \<Rightarrow> (string \<times> json) list" where
  "dict_set [] k v = [(k, v)]"
| "dict_set ((k', v') # d) k v = (if k' = k then (k, v) # d else (k', v') # dict_set d k v)"

text \<open>\<open>{**d, **e}\<close>: the items of \<open>e\<close> are stored into \<open>d\<close> in order.\<close>

definition dict_update :: "(string \<times> json) list \<Rightarrow> (string \<times> json) list \<Rightarrow> (string \<times> json) list" where
  "dict_update d e = foldl (\<lambda>acc (k, v). dict_set acc k v) d e"

section \<open>The JSON salvage parser\<close>

datatype error =
    EmptyResponse
  | JSONDecodeError
  | NoValidJSON
  | IndexError
  | BackendError
  | ValidationError

text \<open>
  \<open>extract_json_from_text\<close> (main.py, lines 44 to 60). The library decoder \<open>json.loads\<close> is
  the parameter \<open>loads\<close>: \<open>None\<close> stands for its \<open>JSONDecodeError\<close>. The first decoding
  error is caught, the one of the second attempt leaves the function as it is.
\<close>

definition fence :: string where
  "fence = ''```''"

definition fence_json :: string where
  "fence_json = ''```json''"

definition clean :: "string \<Rightarrow> string" where
  "clean text =
     (let cleaned = strip text
      in if startswith cleaned fence
         then strip (replace (replace cleaned fence_json []) fence [])
         else cleaned)"

definition extract_json_from_text :: "(string \<Rightarrow> json option) \<Rightarrow> string \<Rightarrow> error + json" where
  "extract_json_from_text loads text =
     (if text = [] then Inl EmptyResponse
      else
        let cleaned = clean text
        in case loads cleaned of
             Some v \<Rightarrow> Inr v
           | None \<Rightarrow>
               (let start = str_find cleaned ''{''; end = str_rfind cleaned ''}''
                in if start \<noteq> - 1 \<and> end \<noteq> - 1
                   then (case loads (str_slice cleaned start (end + 1)) of
                           Some v \<Rightarrow> Inr v
                         | None \<Rightarrow> Inl JSONDecodeError)
                   else Inl NoValidJSON))"

section \<open>Contact detection\<close>

text \<open>
  Lines 308 to 311 of \<open>chat\<close>: the flags computed from the content of the last message of
  the request.
\<close>

definition is_phone :: "string \<Rightarrow> bool" where
  "is_phone content =
     (let latest_user_message = strip content
      in isdigit latest_user_message \<and> 7 \<le> length latest_user_message)"

definition is_email :: "string \<Rightarrow> bool" where
  "is_email content =
     (let latest_user_message = strip content
      in contains latest_user_message ''@'' \<and> contains latest_user_message ''.'')"

section \<open>A decoder for instances\<close>

text \<open>
  The theorems below hold for every decoder \<open>loads\<close>. Concrete instances need one: this is
  the decoding algorithm of \<open>json.loads\<close> on the fragment of JSON whose numbers are integers
  and whose strings have no \<open>\u\<close> escape; on a text with a fraction, an exponent, a \<open>\u\<close>
  escape, \<open>NaN\<close> or \<open>Infinity\<close> it answers \<open>None\<close>. The first argument of the mutually
  recursive scanners bounds the depth of the calls; \<open>loads_fragment\<close> starts them with more
  than the length of the text.
\<close>

definition json_ws :: "char \<Rightarrow> bool" where
  "json_ws c = (cp c = 32 \<or> cp c = 9 \<or> cp c = 10 \<or> cp c = 13)"

definition skip_ws :: "string \<Rightarrow> string" where
  "skip_ws s = dropWhile json_ws s"

definition unescape :: "char \<Rightarrow> char option" where
  "unescape e =
     (if e = CHR 0x22 then Some (CHR 0x22)
      else if e = CHR 0x5C then Some (CHR 0x5C)
      else if e = CHR ''/'' then Some (CHR ''/'')
      else if e = CHR ''b'' then Some (CHR 0x08)
      else if e = CHR ''f'' then Some (CHR 0x0C)
      else if e = CHR ''n'' then Some (CHR 0x0A)
      else if e = CHR ''r'' then Some (CHR 0x0D)
      else if e = CHR ''t'' then Some (CHR 0x09)
      else None)"

fun scan_string :: "string \<Rightarrow> (string \<times> string) option" where
  "scan_string [] = None"
| "scan_string (c # cs) =
     (if c = CHR 0x22 then Some ([], cs)
      else if c = CHR 0x5C then
        (case cs of
           [] \<Rightarrow> None
         | e # r \<Rightarrow>
             (case unescape e of
                None \<Rightarrow> None
              | Some ch \<Rightarrow>
                  (case scan_string r of None \<Rightarrow> None | Some (str, r') \<Rightarrow> Some (ch # str, r'))))
      else if cp c < 32 then None
      else (case scan_string cs of None \<Rightarrow> None | Some (str, r') \<Rightarrow> Some (c # str, r')))"

definition ascii_digit :: "char \<Rightarrow> bool" where
  "ascii_digit c = (48 \<le> cp c \<and> cp c \<le> 57)"

definition digits_value :: "string \<Rightarrow> int" where
  "digits_value ds = foldl (\<lambda>acc d. 10 * acc + (int (cp d) - 48)) 0 ds"

definition scan_int :: "string \<Rightarrow> (int \<times> string) option" where
  "scan_int s =
     (case s of
        [] \<Rightarrow> None
      | d # ds \<Rightarrow>
          if d = CHR ''0'' then Some (0, ds)
          else if ascii_digit d
          then Some (digits_value (takeWhile ascii_digit s), dropWhile ascii_digit s)
          else None)"

definition scan_number :: "string \<Rightarrow> (json \<times> string) option" where
  "scan_number s =
     (let neg = (s \<noteq> [] \<and> hd s = CHR ''-'')
      in case scan_int (if neg then tl s else s) of
           None \<Rightarrow> None
         | Some (n, r) \<Rightarrow>
             if r \<noteq> [] \<and> (hd r = CHR ''.'' \<or> hd r = CHR ''e'' \<or> hd r = CHR ''E'') then None
             else Some (JInt (if neg then - n else n), r))"

fun scan_once :: "nat \<Rightarrow> string \<Rightarrow> (json \<times> string) option"
  and scan_array :: "nat \<Rightarrow> string \<Rightarrow> (json list \<times> string) option"
  and scan_object :: "nat \<Rightarrow> string \<Rightarrow> ((string \<times> json) list \<times> string) option" where
  "scan_once 0 s = None"
| "scan_once (Suc n) s =
     (case s of
        [] \<Rightarrow> None
      | c # cs \<Rightarrow>
          if c = CHR 0x22 then
            (case scan_string cs of None \<Rightarrow> None | Some (str, r) \<Rightarrow> Some (JStr str, r))
          else if c = CHR ''{'' then
            (case skip_ws cs of
               [] \<Rightarrow> None
             | d # r \<Rightarrow>
                 if d = CHR ''}'' then Some (JDict [], r)
                 else (case scan_object n (d # r) of
                         None \<Rightarrow> None
                       | Some (ps, r') \<Rightarrow> Some (JDict (dict_update [] ps), r')))
          else if c = CHR ''['' then
            (case skip_ws cs of
               [] \<Rightarrow> None
             | d # r \<Rightarrow>
                 if d = CHR '']'' then Some (JList [], r)
                 else (case scan_array n (d # r) of
                         None \<Rightarrow> None
                       | Some (vs, r') \<Rightarrow> Some (JList vs, r')))
          else if prefix ''null'' s then Some (JNull, drop 4 s)
          else if prefix ''true'' s then Some (JBool True, drop 4 s)
          else if prefix ''false'' s then Some (JBool False, drop 5 s)
          else scan_number s)"
| "scan_array 0 s = None"
| "scan_array (Suc n) s =
     (case scan_once n s of
        None \<Rightarrow> None
      | Some (v, r) \<Rightarrow>
          (case skip_ws r of
             [] \<Rightarrow> None
           | d # r' \<Rightarrow>
               if d = CHR '']'' then Some ([v], r')
               else if d = CHR '','' then
                 (case scan_array n (skip_ws r') of
                    None \<Rightarrow> None
                  | Some (vs, r'') \<Rightarrow> Some (v # vs, r''))
               else None))"
| "scan_object 0 s = None"
| "scan_object (Suc n) s =
     (case s of
        [] \<Rightarrow> None
      | q # r0 \<Rightarrow>
          if q \<noteq> CHR 0x22 then None
          else
            (case scan_string r0 of
               None \<Rightarrow> None
             | Some (k, r1) \<Rightarrow>
                 (case skip_ws r1 of
                    [] \<Rightarrow> None
                  | col # r2 \<Rightarrow>
                      if col \<noteq> CHR '':'' then None
                      else
                        (case scan_once n (skip_ws r2) of
                           None \<Rightarrow> None
                         | Some (v, r3) \<Rightarrow>
                             (case skip_ws r3 of
                                [] \<Rightarrow> None
                              | d # r4 \<Rightarrow>
                                  if d = CHR ''}'' then Some ([(k, v)], r4)
                                  else if d = CHR '','' then
                                    (case scan_object n (skip_ws r4) of
                                       None \<Rightarrow> None
                                     | Some (ps, r5) \<Rightarrow> Some ((k, v) # ps, r5))
                                  else None)))))"

definition loads_fragment :: "string \<Rightarrow> json option" where
  "loads_fragment s =
     (case scan_once (Suc (length s)) (skip_ws s) of
        None \<Rightarrow> None
      | Some (v, r) \<Rightarrow> if skip_ws r = [] then Some v else None)"

section \<open>The request handler and its collaborators\<close>

record Message =
  role :: string
  content :: string

record ChatRequest =
  session_id :: string
  messages :: "Message list"
  lead_id :: "string option"

text \<open>
  A call of \<open>client.chat.completions.create\<close> followed by
  \<open>response.choices[0].message.content\<close> either raises or gives the content, which is a
  \<open>str\<close> or \<open>None\<close>.
\<close>

datatype completion = Raised | Returned "string option"

text \<open>
  What a request meets outside the process: the two calls of the generative backend (the
  prompt of each is a fixed function of the messages it is given), the library decoder,
  the value drawn by \<open>uuid.uuid4()\<close>, the clock, the environment variable
  \<open>GOOGLE_SCRIPT_URL\<close> and \<open>requests.post\<close>, which returns (\<open>True\<close>) or raises (\<open>False\<close>).
\<close>

record world =
  reply_backend :: "Message list \<Rightarrow> completion"
  extract_backend :: "Message list \<Rightarrow> completion"
  json_loads :: "string \<Rightarrow> json option"
  uuid4 :: "128 word"
  utcnow :: string
  API_URL :: "string option"
  requests_post :: "string \<Rightarrow> json \<Rightarrow> bool"

text \<open>The calls a request makes, in order; a \<open>PostCall\<close> records how the call ended.\<close>

datatype event =
    ReplyCall "Message list"
  | ExtractCall "Message list"
  | PostCall string json bool

text \<open>
  \<open>str(uuid.uuid4())\<close>: the 32 lower-case hexadecimal digits of the 128-bit value, grouped
  8-4-4-4-12.
\<close>

definition hex_digit :: "nat \<Rightarrow> char" where
  "hex_digit n = ''0123456789abcdef'' ! (n mod 16)"

definition hex32 :: "128 word \<Rightarrow> string" where
  "hex32 u = map (\<lambda>i. hex_digit (unat (drop_bit (4 * (31 - i)) u AND 15))) [0..<32]"

definition uuid_str :: "128 word \<Rightarrow> string" where
  "uuid_str u =
     (let h = hex32 u
      in take 8 h @ ''-'' @ take 4 (drop 8 h) @ ''-'' @ take 4 (drop 12 h) @ ''-'' @
         take 4 (drop 16 h) @ ''-'' @ drop 20 h)"

text \<open>\<open>generate_ai_reply\<close> (lines 65 to 99): nothing is caught.\<close>

definition generate_ai_reply :: "world \<Rightarrow> Message list \<Rightarrow> error + string option" where
  "generate_ai_reply w msgs =
     (case reply_backend w msgs of Raised \<Rightarrow> Inl BackendError | Returned c \<Rightarrow> Inr c)"

definition fallback_record :: json where
  "fallback_record = JDict
     [(''intent'', JStr ''sales''),
      (''service_interest'', JStr ''Website redesign''),
      (''budget_range'', JStr ''unknown''),
      (''timeline'', JStr ''unknown''),
      (''urgency_level'', JStr ''medium''),
      (''lead_score'', JInt 50),
      (''lead_temperature'', JStr ''warm''),
      (''ai_summary'', JStr ''Lead captured but details incomplete.''),
      (''suggested_action'', JStr ''Review manually'')]"

text \<open>
  Lines 149 to 162 of \<open>extract_lead_data\<close>: the \<open>try\<close> around the salvage parser. A content of
  \<open>None\<close> is falsy, so the parser raises its first \<open>ValueError\<close> on it as on the empty string.
\<close>

definition salvage_or_fallback :: "(string \<Rightarrow> json option) \<Rightarrow> string option \<Rightarrow> json" where
  "salvage_or_fallback loads c =
     (case c of
        None \<Rightarrow> fallback_record
      | Some text \<Rightarrow>
          (case extract_json_from_text loads text of
             Inl e \<Rightarrow> fallback_record
           | Inr v \<Rightarrow> v))"

text \<open>
  \<open>extract_lead_data\<close> (lines 103 to 162): the call of the backend is outside the \<open>try\<close>,
  so its exception leaves the function.
\<close>

definition extract_lead_data :: "world \<Rightarrow> Message list \<Rightarrow> error + json" where
  "extract_lead_data w msgs =
     (case extract_backend w msgs of
        Raised \<Rightarrow> Inl BackendError
      | Returned c \<Rightarrow> Inr (salvage_or_fallback (json_loads w) c))"

text \<open>Lines 301 to 305 of \<open>chat\<close>.\<close>

definition ensure_dict :: "json \<Rightarrow> json" where
  "ensure_dict extracted =
     (let extracted1 =
            (case extracted of
               JList xs \<Rightarrow> (case xs of [] \<Rightarrow> JDict [] | x # rest \<Rightarrow> x)
             | _ \<Rightarrow> extracted)
      in case extracted1 of JDict d \<Rightarrow> JDict d | _ \<Rightarrow> JDict [])"

text \<open>
  Lines 314 to 324 of \<open>chat\<close>: the identifier and the action. \<open>not lead_id\<close> holds for
  \<open>None\<close> and for the empty string; \<open>fresh\<close> is the value of \<open>str(uuid.uuid4())\<close>.
\<close>

definition lifecycle ::
  "string option \<Rightarrow> bool \<Rightarrow> bool \<Rightarrow> string \<Rightarrow> string option \<times> string option" where
  "lifecycle lead phone email fresh =
     (if lead = None \<or> lead = Some []
      then (if phone \<or> email then (Some fresh, Some ''saveLead'') else (lead, None))
      else (lead, Some ''updateLead''))"

definition json_of_lead :: "string option \<Rightarrow> json" where
  "json_of_lead lead = (case lead of None \<Rightarrow> JNull | Some l \<Rightarrow> JStr l)"

text \<open>\<open>m.dict()\<close>\<close>

definition message_dict :: "Message \<Rightarrow> json" where
  "message_dict m = JDict [(''role'', JStr (role m)), (''content'', JStr (content m))]"

text \<open>Lines 330 to 336: the keys of \<open>extracted\<close> are stored over the first three.\<close>

definition payload :: "string \<Rightarrow> string option \<Rightarrow> json \<Rightarrow> Message list \<Rightarrow> json" where
  "payload now lead extracted updated_messages =
     JDict (dict_set
       (dict_update
          [(''created_at'', JStr now), (''lead_id'', json_of_lead lead),
           (''source'', JStr ''website-chatbot'')]
          (case extracted of JDict d \<Rightarrow> d | _ \<Rightarrow> []))
       ''conversation_log'' (JList (map message_dict updated_messages)))"

text \<open>\<open>f"{API_URL}?action={action}"\<close>\<close>

definition post_url :: "string option \<Rightarrow> string \<Rightarrow> string" where
  "post_url url action = (case url of None \<Rightarrow> ''None'' | Some u \<Rightarrow> u) @ ''?action='' @ action"

text \<open>Lines 329 to 345: one call when an action was chosen, its exception swallowed.\<close>

definition persist :: "world \<Rightarrow> string option \<Rightarrow> string option \<Rightarrow> json \<Rightarrow> Message list \<Rightarrow> event list" where
  "persist w action lead extracted updated_messages =
     (case action of
        None \<Rightarrow> []
      | Some a \<Rightarrow>
          (let body = payload (utcnow w) lead extracted updated_messages;
               url = post_url (API_URL w) a
           in [PostCall url body (requests_post w url body)]))"

definition response :: "string \<Rightarrow> string option \<Rightarrow> json" where
  "response ai_reply lead = JDict [(''reply'', JStr ai_reply), (''lead_id'', json_of_lead lead)]"

text \<open>
  \<open>chat\<close> (lines 282 to 351). The result is the response body or the exception that ends
  the request, with the calls made up to there. \<open>request.messages[-1]\<close> raises on an empty
  list; \<open>Message(role="assistant", content=None)\<close> is rejected by the model's validation.
\<close>

definition chat :: "world \<Rightarrow> ChatRequest \<Rightarrow> (error + json) \<times> event list" where
  "chat w request =
     (if messages request = [] then (Inl IndexError, [])
      else
        case generate_ai_reply w (messages request) of
          Inl e \<Rightarrow> (Inl e, [ReplyCall (messages request)])
        | Inr None \<Rightarrow> (Inl ValidationError, [ReplyCall (messages request)])
        | Inr (Some ai_reply) \<Rightarrow>
            (let updated_messages =
                   messages request @ [\<lparr>role = ''assistant'', content = ai_reply\<rparr>]
             in case extract_lead_data w updated_messages of
                  Inl e \<Rightarrow>
                    (Inl e, [ReplyCall (messages request), ExtractCall updated_messages])
                | Inr extracted0 \<Rightarrow>
                    (let extracted = ensure_dict extracted0;
                         latest = content (last (messages request));
                         decision = lifecycle (lead_id request) (is_phone latest)
                                      (is_email latest) (uuid_str (uuid4 w))
                     in (Inr (response ai_reply (fst decision)),
                         [ReplyCall (messages request), ExtractCall updated_messages] @
                         persist w (snd decision) (fst decision) extracted updated_messages))))"

text \<open>Whether a call went to the Persistence Gateway.\<close>

fun is_post :: "event \<Rightarrow> bool" where
  "is_post (PostCall url body outcome) = True"
| "is_post e = False"

section \<open>Concrete worlds and requests\<close>

text \<open>
  A world where every collaborator answers: the reply is \<open>Hello\<close>, the extraction backend
  answers an empty JSON list and the gateway call raises.
\<close>

definition world_ok :: world where
  "world_ok =
     \<lparr>reply_backend = (\<lambda>msgs. Returned (Some ''Hello'')),
      extract_backend = (\<lambda>msgs. Returned (Some ''[]'')),
      json_loads = loads_fragment,
      uuid4 = 0x0123456789abcdef0123456789abcdef,
      utcnow = ''2024-01-01T00:00:00'',
      API_URL = Some ''https://sheet.example/exec'',
      requests_post = (\<lambda>url body. False)\<rparr>"

text \<open>The same world with the extraction backend down, and with the reply backend down.\<close>

definition world_extract_down :: world where
  "world_extract_down = world_ok\<lparr>extract_backend := (\<lambda>msgs. Raised)\<rparr>"

definition world_reply_down :: world where
  "world_reply_down = world_ok\<lparr>reply_backend := (\<lambda>msgs. Raised)\<rparr>"

definition request_hello :: ChatRequest where
  "request_hello =
     \<lparr>session_id = ''s1'',
      messages = [\<lparr>role = ''user'', content = ''Hi, I need a website''\<rparr>],
      lead_id = None\<rparr>"

definition request_phone :: ChatRequest where
  "request_phone =
     \<lparr>session_id = ''s1'',
      messages = [\<lparr>role = ''user'', content = ''5551234567''\<rparr>],
      lead_id = None\<rparr>"

definition request_known :: ChatRequest where
  "request_known =
     \<lparr>session_id = ''s1'',
      messages = [\<lparr>role = ''user'', content = ''next month''\<rparr>],
      lead_id = Some (uuid_str 0x0123456789abcdef0123456789abcdef)\<rparr>"

definition request_empty :: ChatRequest where
  "request_empty = \<lparr>session_id = ''s1'', messages = [], lead_id = None\<rparr>"

section \<open>Lemmas on the string operations\<close>

lemma replace_fence_end: "\<not> contains x ''```'' \<Longrightarrow> replace (x @ ''```'') ''```'' [] = x"
proof (induction x)
  case Nil
  show ?case by simp
next
  case (Cons c cs)
  then have np: "\<not> prefix ''```'' (c # cs)" and ih: "replace (cs @ ''```'') ''```'' [] = cs"
    by simp_all
  show ?case
  proof (cases cs)
    case Nil
    then show ?thesis by simp
  next
    case (Cons d ds)
    note cs = this
    show ?thesis
    proof (cases ds)
      case Nil
      with cs show ?thesis by simp
    next
      case (Cons e es)
      with cs np ih show ?thesis by auto
    qed
  qed
qed

lemma replace_fence_json_end:
  "\<not> contains x ''```'' \<Longrightarrow> replace (x @ ''```'') ''```json'' [] = x @ ''```''"
proof (induction x)
  case Nil
  show ?case by simp
next
  case (Cons c cs)
  then have np: "\<not> prefix ''```'' (c # cs)"
    and ih: "replace (cs @ ''```'') ''```json'' [] = cs @ ''```''"
    by simp_all
  show ?case
  proof (cases cs)
    case Nil
    then show ?thesis by simp
  next
    case (Cons d ds)
    note cs = this
    show ?thesis
    proof (cases ds)
      case Nil
      with cs show ?thesis by simp
    next
      case (Cons e es)
      with cs np ih show ?thesis by auto
    qed
  qed
qed

lemma strip_core:
  assumes "core \<noteq> []" "\<not> isspace_char (hd core)" "\<not> isspace_char (last core)"
    and "list_all isspace_char ws1" "list_all isspace_char ws2"
  shows "strip (ws1 @ core @ ws2) = core"
proof -
  have l: "lstrip (ws1 @ core @ ws2) = core @ ws2"
    using assms(1,2,4) by (cases core) (simp_all add: lstrip_def dropWhile_append list_all_iff)
  have r: "rstrip (core @ ws2) = core"
    using assms(1,3,5)
    by (cases core rule: rev_cases) (simp_all add: rstrip_def dropWhile_append list_all_iff)
  show ?thesis by (simp add: strip_def l r)
qed

lemma strip_middle:
  assumes "obj \<noteq> []" "\<not> isspace_char (hd obj)" "\<not> isspace_char (last obj)"
  shows "strip (pre @ obj @ post) = lstrip pre @ obj @ rstrip post"
proof -
  have l: "lstrip (pre @ obj @ post) = lstrip pre @ obj @ post"
    using assms(1,2) by (cases obj) (auto simp: lstrip_def dropWhile_append)
  have r: "rstrip (lstrip pre @ obj @ post) = lstrip pre @ obj @ rstrip post"
    using assms(1,3)
    by (cases obj rule: rev_cases) (auto simp: rstrip_def dropWhile_append)
  show ?thesis by (simp add: strip_def l r)
qed

lemma find_from_absent: "c \<notin> set s \<Longrightarrow> find_from i s [c] = - 1"
  by (induction s arbitrary: i) auto

lemma find_from_skip: "c \<notin> set a \<Longrightarrow> find_from i (a @ c # s) [c] = int (i + length a)"
  by (induction a arbitrary: i) auto

lemma find_from_present: "c \<in> set s \<Longrightarrow> find_from i s [c] \<noteq> - 1"
  by (induction s arbitrary: i) auto

lemma rfind_from_absent: "c \<notin> set s \<Longrightarrow> rfind_from i s [c] = - 1"
  by (induction s arbitrary: i) (auto simp: Let_def)

lemma rfind_from_skip: "c \<notin> set b \<Longrightarrow> rfind_from i (a @ c # b) [c] = int (i + length a)"
  by (induction a arbitrary: i) (auto simp: Let_def rfind_from_absent)

lemma rfind_from_ge: "rfind_from i s [c] \<noteq> - 1 \<Longrightarrow> int i \<le> rfind_from i s [c]"
  by (induction s arbitrary: i) (fastforce simp: Let_def split: if_splits)+

lemma rfind_from_present: "c \<in> set s \<Longrightarrow> rfind_from i s [c] \<noteq> - 1"
  by (induction s arbitrary: i) (auto simp: Let_def)

lemma set_replace: "set (replace s old []) \<subseteq> set s"
proof (induction s old "[] :: string" rule: replace.induct)
  case (1 old)
  show ?case by simp
next
  case (2 c cs old)
  show ?case
  proof (cases "old = []")
    case True
    with 2 show ?thesis by auto
  next
    case False
    show ?thesis
    proof (cases "prefix old (c # cs)")
      case True
      have "set (replace (drop (length old) (c # cs)) old []) \<subseteq> set (drop (length old) (c # cs))"
        using 2(2) [OF False True] .
      also have "\<dots> \<subseteq> set (c # cs)"
        by (rule set_drop_subset)
      finally show ?thesis using False True by simp
    next
      case True': False
      with 2(3) [OF False True'] False show ?thesis by auto
    qed
  qed
qed

lemma set_lstrip: "set (lstrip s) \<subseteq> set s"
  using set_dropWhileD by (fastforce simp: lstrip_def)

lemma set_rstrip: "set (rstrip s) \<subseteq> set s"
proof -
  have "set (dropWhile isspace_char (rev s)) \<subseteq> set (rev s)"
    using set_dropWhileD by fastforce
  then show ?thesis by (simp add: rstrip_def)
qed

lemma set_strip: "set (strip s) \<subseteq> set s"
  using set_lstrip [of s] set_rstrip [of "lstrip s"] by (auto simp: strip_def)

lemma set_clean: "set (clean s) \<subseteq> set s"
proof (cases "startswith (strip s) fence")
  case True
  have "set (clean s) \<subseteq> set (replace (replace (strip s) fence_json []) fence [])"
    using True by (simp add: clean_def Let_def set_strip)
  also have "\<dots> \<subseteq> set (replace (strip s) fence_json [])"
    by (rule set_replace)
  also have "\<dots> \<subseteq> set (strip s)"
    by (rule set_replace)
  also have "\<dots> \<subseteq> set s"
    by (rule set_strip)
  finally show ?thesis .
next
  case False
  then show ?thesis by (simp add: clean_def Let_def set_strip)
qed

section \<open>Helper lemmas\<close>

lemma uuid_str_length: "length (uuid_str u) = 36"
  by (simp add: uuid_str_def hex32_def Let_def)

lemma uuid_str_nonempty: "uuid_str u \<noteq> []"
  using uuid_str_length [of u] by auto

lemma contains_char: "contains s [c] = (c \<in> set s)"
  by (induction s) auto

lemma isdigit_all: "isdigit s = (s \<noteq> [] \<and> (\<forall>c\<in>set s. isdigit_char c))"
  by (simp add: isdigit_def list_all_iff)

lemmas strip_defs = strip_def lstrip_def rstrip_def isspace_char_def cp_def

lemmas detect_defs = is_phone_def is_email_def isdigit_def isdigit_char_def strip_defs

lemma chat_returns:
  assumes "messages request \<noteq> []"
    and "reply_backend w (messages request) = Returned (Some r)"
    and "extract_backend w (messages request @ [\<lparr>role = ''assistant'', content = r\<rparr>]) = Returned c"
  shows "chat w request =
     (Inr (response r (fst (lifecycle (lead_id request)
              (is_phone (content (last (messages request))))
              (is_email (content (last (messages request)))) (uuid_str (uuid4 w))))),
      [ReplyCall (messages request),
       ExtractCall (messages request @ [\<lparr>role = ''assistant'', content = r\<rparr>])] @
      persist w
        (snd (lifecycle (lead_id request)
              (is_phone (content (last (messages request))))
              (is_email (content (last (messages request)))) (uuid_str (uuid4 w))))
        (fst (lifecycle (lead_id request)
              (is_phone (content (last (messages request))))
              (is_email (content (last (messages request)))) (uuid_str (uuid4 w))))
        (ensure_dict (salvage_or_fallback (json_loads w) c))
        (messages request @ [\<lparr>role = ''assistant'', content = r\<rparr>]))"
  using assms
  by (simp add: chat_def generate_ai_reply_def extract_lead_data_def Let_def)

section \<open>Contact detection\<close>

text \<open>
  C4. The two flags are functions of the content of the latest message alone.
  \<open>is_phone\<close> holds exactly when the trimmed text consists of digit characters only and
  has at least 7 of them; \<open>is_email\<close> holds exactly when the trimmed text has both an
  \<open>@\<close> and a \<open>.\<close>. So \<open>5551234567\<close> is a phone number and \<open>555-123-4567\<close> is not,
  \<open>a@b.com\<close> is an email address and \<open>hello\<close> is neither.
\<close>

theorem contact_detection:
  "is_phone msg =
     ((\<forall>c\<in>set (strip msg). isdigit_char c) \<and> 7 \<le> length (strip msg))
   \<and> is_email msg = (CHR ''@'' \<in> set (strip msg) \<and> CHR ''.'' \<in> set (strip msg))
   \<and> is_phone ''5551234567'' \<and> \<not> is_email ''5551234567''
   \<and> \<not> is_phone ''555-123-4567''
   \<and> is_email ''a@b.com'' \<and> \<not> is_phone ''a@b.com''
   \<and> \<not> is_phone ''hello'' \<and> \<not> is_email ''hello''"
proof -
  have phone: "is_phone msg =
      ((\<forall>c\<in>set (strip msg). isdigit_char c) \<and> 7 \<le> length (strip msg))"
    by (auto simp: is_phone_def isdigit_all Let_def)
  have email: "is_email msg =
      (CHR ''@'' \<in> set (strip msg) \<and> CHR ''.'' \<in> set (strip msg))"
    by (simp add: is_email_def contains_char Let_def)
  have ex1: "is_phone ''5551234567'' \<and> \<not> is_email ''5551234567''"
    by (simp add: detect_defs)
  have ex2: "\<not> is_phone ''555-123-4567''"
    by (simp add: detect_defs)
  have ex3: "is_email ''a@b.com'' \<and> \<not> is_phone ''a@b.com''"
    by (simp add: detect_defs)
  have ex4: "\<not> is_phone ''hello'' \<and> \<not> is_email ''hello''"
    by (simp add: detect_defs)
  from phone email ex1 ex2 ex3 ex4 show ?thesis by blast
qed

theorem contact_detection_witness:
  "is_phone ''  5551234567 '' \<and> list_all isdigit_char (strip ''  5551234567 '')
   \<and> 7 \<le> length (strip ''  5551234567 '') \<and> \<not> is_email ''  5551234567 ''"
proof -
  have d: "(\<forall>c\<in>set (strip ''  5551234567 ''). isdigit_char c) \<and> 7 \<le> length (strip ''  5551234567 '')"
    by (simp add: strip_defs isdigit_char_def)
  have e: "CHR ''@'' \<notin> set (strip ''  5551234567 '')"
    by (simp add: strip_defs)
  from d e contact_detection [of "''  5551234567 ''"] show ?thesis
    by (simp add: list_all_iff)
qed

section \<open>The lead lifecycle\<close>

text \<open>
  C2. Lifecycle monotonicity. When the request carries an identifier \<open>X\<close> that is not
  empty, as every identifier minted by \<open>str(uuid.uuid4())\<close> is, the decision is
  \<open>updateLead\<close> with the identifier \<open>X\<close>, whatever the two contact flags and whatever the
  extraction gave: the response carries \<open>X\<close> and one \<open>updateLead\<close> call is made.
\<close>

theorem lifecycle_monotone:
  assumes "messages request \<noteq> []"
    and "reply_backend w (messages request) = Returned (Some r)"
    and "extract_backend w (messages request @ [\<lparr>role = ''assistant'', content = r\<rparr>]) = Returned c"
    and "lead_id request = Some X"
    and "X \<noteq> []"
  shows "lifecycle (Some X) phone email fresh = (Some X, Some ''updateLead'')
    \<and> fst (chat w request) = Inr (response r (Some X))
    \<and> (\<exists>body outcome. snd (chat w request) =
          [ReplyCall (messages request),
           ExtractCall (messages request @ [\<lparr>role = ''assistant'', content = r\<rparr>]),
           PostCall (post_url (API_URL w) ''updateLead'') body outcome])"
  using assms(4,5)
  by (simp add: chat_returns [OF assms(1,2,3)] lifecycle_def persist_def Let_def)

theorem lifecycle_monotone_witness:
  "messages request_known \<noteq> []
   \<and> lead_id request_known = Some (uuid_str 0x0123456789abcdef0123456789abcdef)
   \<and> fst (chat world_ok request_known) =
       Inr (response ''Hello'' (Some (uuid_str 0x0123456789abcdef0123456789abcdef)))
   \<and> (\<exists>body outcome. snd (chat world_ok request_known) =
          [ReplyCall (messages request_known),
           ExtractCall (messages request_known @ [\<lparr>role = ''assistant'', content = ''Hello''\<rparr>]),
           PostCall (post_url (API_URL world_ok) ''updateLead'') body outcome])"
proof -
  have m: "messages request_known \<noteq> []"
    by (simp add: request_known_def)
  have r: "reply_backend world_ok (messages request_known) = Returned (Some ''Hello'')"
    by (simp add: world_ok_def)
  have e: "extract_backend world_ok
      (messages request_known @ [\<lparr>role = ''assistant'', content = ''Hello''\<rparr>]) = Returned (Some ''[]'')"
    by (simp add: world_ok_def)
  have l: "lead_id request_known = Some (uuid_str 0x0123456789abcdef0123456789abcdef)"
    by (simp add: request_known_def)
  from m l lifecycle_monotone [OF m r e l uuid_str_nonempty] show ?thesis by blast
qed

text \<open>
  C3. The state without identity. When the request carries no identifier and neither
  flag holds for the latest message, no action is chosen: the response carries a null
  \<open>lead_id\<close> and no call goes to the gateway, whatever the extraction gave. When a flag
  holds, a fresh identifier is minted, the action is \<open>saveLead\<close> and one such call is made.
\<close>

theorem lifecycle_no_identity:
  assumes "messages request \<noteq> []"
    and "reply_backend w (messages request) = Returned (Some r)"
    and "extract_backend w (messages request @ [\<lparr>role = ''assistant'', content = r\<rparr>]) = Returned c"
    and "lead_id request = None"
  shows "lifecycle None phone email fresh =
       (if phone \<or> email then (Some fresh, Some ''saveLead'') else (None, None))
    \<and> (\<not> is_phone (content (last (messages request))) \<and>
       \<not> is_email (content (last (messages request))) \<longrightarrow>
         chat w request =
           (Inr (response r None),
            [ReplyCall (messages request),
             ExtractCall (messages request @ [\<lparr>role = ''assistant'', content = r\<rparr>])]))
    \<and> (is_phone (content (last (messages request))) \<or>
       is_email (content (last (messages request))) \<longrightarrow>
         fst (chat w request) = Inr (response r (Some (uuid_str (uuid4 w)))) \<and>
         (\<exists>body outcome. snd (chat w request) =
            [ReplyCall (messages request),
             ExtractCall (messages request @ [\<lparr>role = ''assistant'', content = r\<rparr>]),
             PostCall (post_url (API_URL w) ''saveLead'') body outcome]))"
  using assms(4)
  by (simp add: chat_returns [OF assms(1,2,3)] lifecycle_def persist_def Let_def)

theorem lifecycle_no_identity_witness:
  "lead_id request_hello = None
   \<and> \<not> is_phone (content (last (messages request_hello)))
   \<and> \<not> is_email (content (last (messages request_hello)))
   \<and> chat world_ok request_hello =
       (Inr (response ''Hello'' None),
        [ReplyCall (messages request_hello),
         ExtractCall (messages request_hello @ [\<lparr>role = ''assistant'', content = ''Hello''\<rparr>])])
   \<and> lead_id request_phone = None
   \<and> is_phone (content (last (messages request_phone)))
   \<and> fst (chat world_ok request_phone) = Inr (response ''Hello'' (Some (uuid_str (uuid4 world_ok))))"
proof -
  have m: "messages request_hello \<noteq> []" and l: "lead_id request_hello = None"
    by (simp_all add: request_hello_def)
  have r: "reply_backend world_ok (messages request_hello) = Returned (Some ''Hello'')"
    by (simp add: world_ok_def)
  have e: "extract_backend world_ok
      (messages request_hello @ [\<lparr>role = ''assistant'', content = ''Hello''\<rparr>]) = Returned (Some ''[]'')"
    by (simp add: world_ok_def)
  have np: "\<not> is_phone (content (last (messages request_hello)))"
    by (simp add: request_hello_def detect_defs)
  have ne: "\<not> is_email (content (last (messages request_hello)))"
    by (simp add: request_hello_def detect_defs)
  have m2: "messages request_phone \<noteq> []" and l2: "lead_id request_phone = None"
    by (simp_all add: request_phone_def)
  have r2: "reply_backend world_ok (messages request_phone) = Returned (Some ''Hello'')"
    by (simp add: world_ok_def)
  have e2: "extract_backend world_ok
      (messages request_phone @ [\<lparr>role = ''assistant'', content = ''Hello''\<rparr>]) = Returned (Some ''[]'')"
    by (simp add: world_ok_def)
  have p2: "is_phone (content (last (messages request_phone)))"
    by (simp add: request_phone_def detect_defs)
  from l np ne l2 p2 lifecycle_no_identity [OF m r e l] lifecycle_no_identity [OF m2 r2 e2 l2]
  show ?thesis by blast
qed

text \<open>
  C9. An empty-string identifier is treated as no identifier. The branch taken, the
  action and the calls made are those of a null identifier, for every request and every
  world; so when a contact flag holds a fresh identifier is minted and saved although the
  caller presented a non-null one, and then the whole result is that of the null
  identifier. (When no flag holds the response gives the empty string back.)
\<close>

theorem empty_lead_id_is_no_identity:
  "lifecycle (Some []) phone email fresh =
       (if phone \<or> email then (Some fresh, Some ''saveLead'') else (Some [], None))
   \<and> snd (lifecycle (Some []) phone email fresh) = snd (lifecycle None phone email fresh)
   \<and> snd (chat w (request\<lparr>lead_id := Some []\<rparr>)) = snd (chat w (request\<lparr>lead_id := None\<rparr>))
   \<and> (is_phone (content (last (messages request))) \<or>
      is_email (content (last (messages request))) \<longrightarrow>
        chat w (request\<lparr>lead_id := Some []\<rparr>) = chat w (request\<lparr>lead_id := None\<rparr>))
   \<and> (messages request \<noteq> [] \<and>
      reply_backend w (messages request) = Returned (Some r) \<and>
      extract_backend w (messages request @ [\<lparr>role = ''assistant'', content = r\<rparr>]) = Returned c \<and>
      (is_phone (content (last (messages request))) \<or>
       is_email (content (last (messages request)))) \<longrightarrow>
        fst (chat w (request\<lparr>lead_id := Some []\<rparr>)) =
          Inr (response r (Some (uuid_str (uuid4 w)))) \<and>
        (\<exists>body outcome. snd (chat w (request\<lparr>lead_id := Some []\<rparr>)) =
            [ReplyCall (messages request),
             ExtractCall (messages request @ [\<lparr>role = ''assistant'', content = r\<rparr>]),
             PostCall (post_url (API_URL w) ''saveLead'') body outcome]))"
proof -
  have a: "lifecycle (Some []) phone email fresh =
       (if phone \<or> email then (Some fresh, Some ''saveLead'') else (Some [], None))"
    by (simp add: lifecycle_def)
  have b: "snd (lifecycle (Some []) phone email fresh) = snd (lifecycle None phone email fresh)"
    by (simp add: lifecycle_def)
  have c: "snd (chat w (request\<lparr>lead_id := Some []\<rparr>)) = snd (chat w (request\<lparr>lead_id := None\<rparr>))"
    by (simp add: chat_def lifecycle_def persist_def Let_def split: sum.splits option.splits)
  have d: "is_phone (content (last (messages request))) \<or>
      is_email (content (last (messages request))) \<longrightarrow>
        chat w (request\<lparr>lead_id := Some []\<rparr>) = chat w (request\<lparr>lead_id := None\<rparr>)"
    by (simp add: chat_def lifecycle_def persist_def Let_def split: sum.splits option.splits)
  have e: "messages request \<noteq> [] \<and>
      reply_backend w (messages request) = Returned (Some r) \<and>
      extract_backend w (messages request @ [\<lparr>role = ''assistant'', content = r\<rparr>]) = Returned c \<and>
      (is_phone (content (last (messages request))) \<or>
       is_email (content (last (messages request)))) \<longrightarrow>
        fst (chat w (request\<lparr>lead_id := Some []\<rparr>)) =
          Inr (response r (Some (uuid_str (uuid4 w)))) \<and>
        (\<exists>body outcome. snd (chat w (request\<lparr>lead_id := Some []\<rparr>)) =
            [ReplyCall (messages request),
             ExtractCall (messages request @ [\<lparr>role = ''assistant'', content = r\<rparr>]),
             PostCall (post_url (API_URL w) ''saveLead'') body outcome])"
    by (auto simp: chat_def generate_ai_reply_def extract_lead_data_def lifecycle_def
        persist_def Let_def)
  from a b c d e show ?thesis by blast
qed

theorem empty_lead_id_is_no_identity_witness:
  "is_phone (content (last (messages request_phone)))
   \<and> chat world_ok (request_phone\<lparr>lead_id := Some []\<rparr>) = chat world_ok (request_phone\<lparr>lead_id := None\<rparr>)
   \<and> fst (chat world_ok (request_phone\<lparr>lead_id := Some []\<rparr>)) =
       Inr (response ''Hello'' (Some (uuid_str (uuid4 world_ok))))"
proof -
  have m: "messages request_phone \<noteq> []"
    by (simp add: request_phone_def)
  have r: "reply_backend world_ok (messages request_phone) = Returned (Some ''Hello'')"
    by (simp add: world_ok_def)
  have e: "extract_backend world_ok
      (messages request_phone @ [\<lparr>role = ''assistant'', content = ''Hello''\<rparr>]) = Returned (Some ''[]'')"
    by (simp add: world_ok_def)
  have p: "is_phone (content (last (messages request_phone)))"
    by (simp add: request_phone_def detect_defs)
  from m r e p
    empty_lead_id_is_no_identity [of False False "[]" world_ok request_phone "''Hello''" "Some ''[]''"]
  show ?thesis by blast
qed

section \<open>Failures of the request\<close>

text \<open>
  C10. A request needs a message. The handler reads the last element of \<open>messages\<close>
  before anything else, so a request with an empty list fails with an \<open>IndexError\<close> and
  no call is made: no reply generation, no extraction, no persistence.
\<close>

theorem empty_messages_fail:
  "messages request = [] \<Longrightarrow> chat w request = (Inl IndexError, [])"
  by (simp add: chat_def)

theorem empty_messages_fail_witness:
  "messages request_empty = [] \<and> chat world_ok request_empty = (Inl IndexError, [])"
proof -
  have m: "messages request_empty = []"
    by (simp add: request_empty_def)
  from m empty_messages_fail [OF m, of world_ok] show ?thesis by blast
qed

text \<open>
  C8. A failure of the Reply Generator ends the request. When its call raises, the
  request fails with that error: there is no response body, and the only call made is
  the one to the Reply Generator, so no extraction and no persistence call happen.
\<close>

theorem reply_failure_propagates:
  assumes "messages request \<noteq> []"
    and "reply_backend w (messages request) = Raised"
  shows "chat w request = (Inl BackendError, [ReplyCall (messages request)])"
  using assms by (simp add: chat_def generate_ai_reply_def)

theorem reply_failure_propagates_witness:
  "messages request_phone \<noteq> []
   \<and> reply_backend world_reply_down (messages request_phone) = Raised
   \<and> chat world_reply_down request_phone = (Inl BackendError, [ReplyCall (messages request_phone)])"
proof -
  have m: "messages request_phone \<noteq> []"
    by (simp add: request_phone_def)
  have r: "reply_backend world_reply_down (messages request_phone) = Raised"
    by (simp add: world_reply_down_def world_ok_def)
  from m r reply_failure_propagates [OF m r] show ?thesis by blast
qed

section \<open>The extracted record\<close>

lemma ensure_dict_cases:
  "ensure_dict (JDict d) = JDict d"
  "ensure_dict (JList []) = JDict []"
  "ensure_dict (JList (JDict d # rest)) = JDict d"
  "ensure_dict JNull = JDict []"
  "ensure_dict (JBool b) = JDict []"
  "ensure_dict (JInt i) = JDict []"
  "ensure_dict (JFloat f) = JDict []"
  "ensure_dict (JStr s) = JDict []"
  by (simp_all add: ensure_dict_def)

lemma ensure_dict_is_dict: "\<exists>d. ensure_dict v = JDict d"
  by (simp add: ensure_dict_def split: json.splits list.splits)

lemma ensure_dict_head_not_dict:
  "\<forall>d. x \<noteq> JDict d \<Longrightarrow> ensure_dict (JList (x # rest)) = JDict []"
  by (cases x) (simp_all add: ensure_dict_def)

lemma ensure_dict_other:
  "\<forall>d. v \<noteq> JDict d \<Longrightarrow> \<forall>xs. v \<noteq> JList xs \<Longrightarrow> ensure_dict v = JDict []"
  by (cases v) (simp_all add: ensure_dict_def)

theorem extraction_not_always_fallback_counterexample:
  "extract_json_from_text loads_fragment ''[]'' = Inr (JList [])
   \<and> ensure_dict (salvage_or_fallback loads_fragment (Some ''[]'')) = JDict []
   \<and> JDict [] \<noteq> fallback_record"
proof -
  have a: "extract_json_from_text loads_fragment ''[]'' = Inr (JList [])"
    by code_simp
  have b: "ensure_dict (salvage_or_fallback loads_fragment (Some ''[]'')) = JDict []"
    by (simp add: salvage_or_fallback_def a ensure_dict_cases)
  have c: "JDict [] \<noteq> fallback_record"
    by (simp add: fallback_record_def)
  from a b c show ?thesis by blast
qed

text \<open>
  C1, as amended. For every output of the extraction backend the record used downstream
  is a dict and no error reaches the caller: the fixed fallback record when the content
  is \<open>None\<close> or the salvage parser fails; the salvaged dict itself, with whatever keys it
  has, when the parser gives a dict; the first element when the parser gives a list that
  starts with a dict; and the empty dict in every other case (an empty list, a list that
  starts with something else, a value that is neither).
\<close>

theorem extraction_always_a_dict:
  "(\<exists>d. ensure_dict (salvage_or_fallback loads c) = JDict d)
   \<and> (c = None \<longrightarrow> ensure_dict (salvage_or_fallback loads c) = fallback_record)
   \<and> (\<forall>text e. c = Some text \<and> extract_json_from_text loads text = Inl e \<longrightarrow>
        ensure_dict (salvage_or_fallback loads c) = fallback_record)
   \<and> (\<forall>text d. c = Some text \<and> extract_json_from_text loads text = Inr (JDict d) \<longrightarrow>
        ensure_dict (salvage_or_fallback loads c) = JDict d)
   \<and> (\<forall>text d rest. c = Some text \<and>
        extract_json_from_text loads text = Inr (JList (JDict d # rest)) \<longrightarrow>
        ensure_dict (salvage_or_fallback loads c) = JDict d)
   \<and> (\<forall>text. c = Some text \<and> extract_json_from_text loads text = Inr (JList []) \<longrightarrow>
        ensure_dict (salvage_or_fallback loads c) = JDict [])
   \<and> (\<forall>text x rest. c = Some text \<and>
        extract_json_from_text loads text = Inr (JList (x # rest)) \<and> (\<forall>d. x \<noteq> JDict d) \<longrightarrow>
        ensure_dict (salvage_or_fallback loads c) = JDict [])
   \<and> (\<forall>text v. c = Some text \<and> extract_json_from_text loads text = Inr v \<and>
        (\<forall>d. v \<noteq> JDict d) \<and> (\<forall>xs. v \<noteq> JList xs) \<longrightarrow>
        ensure_dict (salvage_or_fallback loads c) = JDict [])
   \<and> (extract_backend w msgs = Returned c \<longrightarrow>
        extract_lead_data w msgs = Inr (salvage_or_fallback (json_loads w) c))"
proof -
  have fb: "ensure_dict fallback_record = fallback_record"
    by (simp add: fallback_record_def ensure_dict_def)
  have p1: "\<exists>d. ensure_dict (salvage_or_fallback loads c) = JDict d"
    by (rule ensure_dict_is_dict)
  have p2: "c = None \<longrightarrow> ensure_dict (salvage_or_fallback loads c) = fallback_record"
    by (simp add: salvage_or_fallback_def fb)
  have p3: "\<forall>text e. c = Some text \<and> extract_json_from_text loads text = Inl e \<longrightarrow>
        ensure_dict (salvage_or_fallback loads c) = fallback_record"
    by (simp add: salvage_or_fallback_def fb)
  have p4: "\<forall>text d. c = Some text \<and> extract_json_from_text loads text = Inr (JDict d) \<longrightarrow>
        ensure_dict (salvage_or_fallback loads c) = JDict d"
    by (simp add: salvage_or_fallback_def ensure_dict_cases)
  have p5: "\<forall>text d rest. c = Some text \<and>
        extract_json_from_text loads text = Inr (JList (JDict d # rest)) \<longrightarrow>
        ensure_dict (salvage_or_fallback loads c) = JDict d"
    by (simp add: salvage_or_fallback_def ensure_dict_cases)
  have p6: "\<forall>text. c = Some text \<and> extract_json_from_text loads text = Inr (JList []) \<longrightarrow>
        ensure_dict (salvage_or_fallback loads c) = JDict []"
    by (simp add: salvage_or_fallback_def ensure_dict_cases)
  have p7: "\<forall>text x rest. c = Some text \<and>
        extract_json_from_text loads text = Inr (JList (x # rest)) \<and> (\<forall>d. x \<noteq> JDict d) \<longrightarrow>
        ensure_dict (salvage_or_fallback loads c) = JDict []"
    by (simp add: salvage_or_fallback_def ensure_dict_head_not_dict)
  have p8: "\<forall>text v. c = Some text \<and> extract_json_from_text loads text = Inr v \<and>
        (\<forall>d. v \<noteq> JDict d) \<and> (\<forall>xs. v \<noteq> JList xs) \<longrightarrow>
        ensure_dict (salvage_or_fallback loads c) = JDict []"
    by (simp add: salvage_or_fallback_def ensure_dict_other)
  have p9: "extract_backend w msgs = Returned c \<longrightarrow>
        extract_lead_data w msgs = Inr (salvage_or_fallback (json_loads w) c)"
    by (simp add: extract_lead_data_def)
  from p1 p2 p3 p4 p5 p6 p7 p8 p9 show ?thesis by blast
qed

theorem extraction_always_a_dict_witness:
  \<open>extract_json_from_text loads_fragment ''[{"intent": "support"}, 3]'' =
     Inr (JList [JDict [(''intent'', JStr ''support'')], JInt 3])
   \<and> ensure_dict (salvage_or_fallback loads_fragment (Some ''[{"intent": "support"}, 3]'')) =
     JDict [(''intent'', JStr ''support'')]
   \<and> extract_json_from_text loads_fragment ''no json here'' = Inl NoValidJSON
   \<and> ensure_dict (salvage_or_fallback loads_fragment (Some ''no json here'')) = fallback_record\<close>
proof -
  have a: \<open>extract_json_from_text loads_fragment ''[{"intent": "support"}, 3]'' =
     Inr (JList (JDict [(''intent'', JStr ''support'')] # [JInt 3]))\<close>
    by code_simp
  have b: "extract_json_from_text loads_fragment ''no json here'' = Inl NoValidJSON"
    by code_simp
  from a b
    extraction_always_a_dict [of loads_fragment \<open>Some ''[{"intent": "support"}, 3]''\<close>]
    extraction_always_a_dict [of loads_fragment "Some ''no json here''"]
  show ?thesis by simp
qed

section \<open>Persistence and the response\<close>

theorem extraction_failure_counterexample:
  "messages request_phone \<noteq> []
   \<and> reply_backend world_extract_down (messages request_phone) = Returned (Some ''Hello'')
   \<and> chat world_extract_down request_phone =
       (Inl BackendError,
        [ReplyCall (messages request_phone),
         ExtractCall (messages request_phone @ [\<lparr>role = ''assistant'', content = ''Hello''\<rparr>])])"
  by (simp add: chat_def generate_ai_reply_def extract_lead_data_def world_extract_down_def
      world_ok_def request_phone_def)

text \<open>
  C7, as amended. For every request in which the Reply Generator returns a reply and
  the call of the extraction backend returns, the response holds that reply and the
  identifier of the lifecycle decision (possibly null), whether the gateway call
  succeeds, raises or is not made: the response is the same for every behaviour of
  \<open>requests.post\<close>. The gateway is called at most once, and exactly once when an action
  was chosen.
\<close>

theorem persistence_invisible:
  assumes "messages request \<noteq> []"
    and "reply_backend w (messages request) = Returned (Some r)"
    and "extract_backend w (messages request @ [\<lparr>role = ''assistant'', content = r\<rparr>]) = Returned c"
  shows "fst (chat w request) =
       Inr (response r (fst (lifecycle (lead_id request)
              (is_phone (content (last (messages request))))
              (is_email (content (last (messages request)))) (uuid_str (uuid4 w)))))
    \<and> fst (chat (w\<lparr>requests_post := p\<rparr>) request) = fst (chat w request)
    \<and> length (filter is_post (snd (chat w request))) \<le> 1
    \<and> (length (filter is_post (snd (chat w request))) = 1) =
      (snd (lifecycle (lead_id request)
              (is_phone (content (last (messages request))))
              (is_email (content (last (messages request)))) (uuid_str (uuid4 w))) \<noteq> None)"
proof -
  have r': "reply_backend (w\<lparr>requests_post := p\<rparr>) (messages request) = Returned (Some r)"
    using assms(2) by simp
  have e': "extract_backend (w\<lparr>requests_post := p\<rparr>)
      (messages request @ [\<lparr>role = ''assistant'', content = r\<rparr>]) = Returned c"
    using assms(3) by simp
  show ?thesis
    by (simp add: chat_returns [OF assms] chat_returns [OF assms(1) r' e'] persist_def Let_def
        split: option.splits)
qed

theorem persistence_invisible_witness:
  "requests_post world_ok = (\<lambda>url body. False)
   \<and> fst (chat world_ok request_phone) = Inr (response ''Hello'' (Some (uuid_str (uuid4 world_ok))))
   \<and> fst (chat (world_ok\<lparr>requests_post := (\<lambda>url body. True)\<rparr>) request_phone) =
       Inr (response ''Hello'' (Some (uuid_str (uuid4 world_ok))))
   \<and> length (filter is_post (snd (chat world_ok request_phone))) = 1"
proof -
  have m: "messages request_phone \<noteq> []"
    by (simp add: request_phone_def)
  have r: "reply_backend world_ok (messages request_phone) = Returned (Some ''Hello'')"
    by (simp add: world_ok_def)
  have e: "extract_backend world_ok
      (messages request_phone @ [\<lparr>role = ''assistant'', content = ''Hello''\<rparr>]) = Returned (Some ''[]'')"
    by (simp add: world_ok_def)
  have p: "is_phone (content (last (messages request_phone)))"
    by (simp add: request_phone_def detect_defs)
  have l: "lead_id request_phone = None"
    by (simp add: request_phone_def)
  have q: "requests_post world_ok = (\<lambda>url body. False)"
    by (simp add: world_ok_def)
  from q p l persistence_invisible [OF m r e, of "\<lambda>url body. True"] show ?thesis
    by (simp add: lifecycle_def)
qed

section \<open>The salvage parser\<close>

lemma str_find_char: "(str_find s [c] \<noteq> - 1) = (c \<in> set s)"
  using find_from_present [of c s 0] find_from_absent [of c s 0] by (auto simp: str_find_def)

lemma str_rfind_char: "(str_rfind s [c] \<noteq> - 1) = (c \<in> set s)"
  using rfind_from_present [of c s 0] rfind_from_absent [of c s 0] by (auto simp: str_rfind_def)

lemma slice_middle:
  "str_slice (a @ obj @ b) (int (length a)) (int (length a + length obj)) = obj"
  by (simp add: str_slice_def slice_index_def Let_def)

lemma clean_fenced:
  assumes "\<not> contains body fence"
    and "list_all isspace_char ws1" and "list_all isspace_char ws2"
  shows "clean (ws1 @ fence_json @ body @ fence @ ws2) = strip body"
proof -
  let ?core = "fence_json @ body @ fence"
  have s: "strip (ws1 @ ?core @ ws2) = ?core"
    using assms(2,3) by (intro strip_core) (simp_all add: fence_json_def fence_def isspace_char_def cp_def)
  have st: "startswith ?core fence"
    by (simp add: startswith_def fence_json_def fence_def)
  have r1: "replace ?core fence_json [] = body @ fence"
    using replace_fence_json_end [of body] assms(1) by (simp add: fence_json_def fence_def)
  have r2: "replace (body @ fence) fence [] = body"
    using replace_fence_end [of body] assms(1) by (simp add: fence_def)
  show ?thesis
    using s st r1 r2 by (simp add: clean_def Let_def)
qed

theorem fence_strips_inner_backticks_counterexample:
  \<open>loads_fragment ''{"a":"```"}'' = Some (JDict [(''a'', JStr ''```'')])
   \<and> extract_json_from_text loads_fragment ''```json\<newline>{"a":"```"}\<newline>```'' =
       Inr (JDict [(''a'', JStr [])])\<close>
proof -
  have a: \<open>loads_fragment ''{"a":"```"}'' = Some (JDict [(''a'', JStr ''```'')])\<close>
    by code_simp
  have b: \<open>extract_json_from_text loads_fragment ''```json\<newline>{"a":"```"}\<newline>```'' =
       Inr (JDict [(''a'', JStr [])])\<close>
    by code_simp
  from a b show ?thesis by blast
qed

text \<open>
  C5, as amended. Fence stripping round-trip. For every content that does not contain
  the fence marker \<open>```\<close> and that the decoder accepts, with the same result once its
  surrounding whitespace is stripped (as \<open>json.loads\<close> does on every text it accepts), the
  salvage parser applied to the content wrapped in a fenced block with a \<open>json\<close> tag,
  with any whitespace around the block, returns what decoding the unwrapped content
  returns.
\<close>

theorem fence_roundtrip:
  assumes "\<not> contains body fence"
    and "loads body = Some v"
    and "loads (strip body) = loads body"
    and "list_all isspace_char ws1" and "list_all isspace_char ws2"
  shows "extract_json_from_text loads (ws1 @ fence_json @ body @ fence @ ws2) = Inr v"
proof -
  have ne: "ws1 @ fence_json @ body @ fence @ ws2 \<noteq> []"
    by (simp add: fence_def)
  show ?thesis
    using ne assms(2,3) clean_fenced [OF assms(1,4,5)]
    by (simp add: extract_json_from_text_def Let_def)
qed

theorem fence_roundtrip_witness:
  \<open>loads_fragment ''\<newline>{"a": 1}\<newline>'' = Some (JDict [(''a'', JInt 1)])
   \<and> extract_json_from_text loads_fragment ''  ```json\<newline>{"a": 1}\<newline>```\<newline>'' =
       Inr (JDict [(''a'', JInt 1)])\<close>
proof -
  have c: \<open>\<not> contains ''\<newline>{"a": 1}\<newline>'' fence\<close>
    by code_simp
  have l: \<open>loads_fragment ''\<newline>{"a": 1}\<newline>'' = Some (JDict [(''a'', JInt 1)])\<close>
    by code_simp
  have s: \<open>loads_fragment (strip ''\<newline>{"a": 1}\<newline>'') = loads_fragment ''\<newline>{"a": 1}\<newline>''\<close>
    by code_simp
  have w1: "list_all isspace_char ''  ''"
    by code_simp
  have w2: "list_all isspace_char ''\<newline>''"
    by code_simp
  from l fence_roundtrip [OF c l s w1 w2] show ?thesis
    by (simp add: fence_def fence_json_def)
qed

lemma prefix_into_next:
  assumes "prefix old (a @ b)" "b \<noteq> []" "hd b \<notin> set old"
  shows "prefix old a"
proof -
  from assms(1) consider "prefix old a" | us where "old = a @ us" "prefix us b"
    by (auto simp: prefix_append)
  then show ?thesis
  proof cases
    case 1
    then show ?thesis .
  next
    case 2
    show ?thesis
    proof (cases us)
      case Nil
      with 2 show ?thesis by simp
    next
      case (Cons u us')
      with 2(2) assms(2) have "hd b = u"
        by (cases b) auto
      with 2(1) Cons assms(3) show ?thesis by simp
    qed
  qed
qed

lemma replace_before:
  "old \<noteq> [] \<Longrightarrow> b \<noteq> [] \<Longrightarrow> hd b \<notin> set old \<Longrightarrow>
     replace (a @ b) old [] = replace a old [] @ replace b old []"
proof (induction a old "[] :: string" rule: replace.induct)
  case (1 old)
  then show ?case by simp
next
  case (2 c cs old)
  show ?case
  proof (cases "prefix old (c # cs)")
    case True
    then have p: "prefix old (c # cs @ b)"
      by (metis append_Cons prefix_prefix)
    have len: "length old \<le> length (c # cs)"
      using True by (rule prefix_length_le)
    have "drop (length old) ((c # cs) @ b) =
        drop (length old) (c # cs) @ drop (length old - length (c # cs)) b"
      by (rule drop_append)
    with len have d: "drop (length old) (c # cs @ b) = drop (length old) (c # cs) @ b"
      by simp
    have ih: "replace (drop (length old) (c # cs) @ b) old [] =
        replace (drop (length old) (c # cs)) old [] @ replace b old []"
      using 2(2) [OF 2(4) True 2(4) 2(5) 2(6)] .
    show ?thesis
      using 2(4) True p d ih by simp
  next
    case False
    have np: "\<not> prefix old (c # cs @ b)"
      using False prefix_into_next [of old "c # cs" b] 2(5,6) by auto
    have ih: "replace (cs @ b) old [] = replace cs old [] @ replace b old []"
      using 2(3) [OF 2(4) False 2(4) 2(5) 2(6)] .
    show ?thesis
      using 2(4) False np ih by simp
  qed
qed

lemma replace_middle:
  "old \<noteq> [] \<Longrightarrow> obj \<noteq> [] \<Longrightarrow> last obj \<notin> set old \<Longrightarrow> \<not> contains obj old \<Longrightarrow>
     replace (obj @ post) old [] = obj @ replace post old []"
proof (induction obj)
  case Nil
  then show ?case by simp
next
  case (Cons x xs)
  have np: "\<not> prefix old (x # xs @ post)"
  proof
    assume "prefix old (x # xs @ post)"
    then consider "prefix old (x # xs)" | us where "old = (x # xs) @ us"
      using prefix_append [of old "x # xs" post] by auto
    then show False
    proof cases
      case 1
      with Cons.prems(4) show False by simp
    next
      case 2
      then have "last (x # xs) \<in> set old"
        using last_in_set [of "x # xs"] by auto
      with Cons.prems(3) show False by simp
    qed
  qed
  show ?case
  proof (cases xs)
    case Nil
    with np Cons.prems(1) show ?thesis by simp
  next
    case (Cons y ys)
    then have ne: "xs \<noteq> []" by simp
    have l: "last xs \<notin> set old"
      using Cons.prems(3) ne by simp
    have nc: "\<not> contains xs old"
      using Cons.prems(4) by simp
    have "replace (xs @ post) old [] = xs @ replace post old []"
      using Cons.IH [OF Cons.prems(1) ne l nc] .
    with np Cons.prems(1) show ?thesis by simp
  qed
qed

lemma replace_around:
  assumes "old \<noteq> []" "obj \<noteq> []" "hd obj \<notin> set old" "last obj \<notin> set old" "\<not> contains obj old"
  shows "replace (pre @ obj @ post) old [] = replace pre old [] @ obj @ replace post old []"
proof -
  have "hd (obj @ post) \<notin> set old" "obj @ post \<noteq> []"
    using assms(2,3) by simp_all
  then have "replace (pre @ obj @ post) old [] = replace pre old [] @ replace (obj @ post) old []"
    using replace_before [of old "obj @ post" pre] assms(1) by simp
  then show ?thesis
    using replace_middle [OF assms(1,2,4,5)] by simp
qed

lemma contains_fence_json: "contains s fence_json \<Longrightarrow> contains s fence"
proof (induction s)
  case Nil
  then show ?case by (simp add: fence_json_def)
next
  case (Cons c cs)
  have "prefix fence fence_json"
    by (simp add: fence_def fence_json_def)
  then have "prefix fence_json (c # cs) \<Longrightarrow> prefix fence (c # cs)"
    using prefix_order.trans by blast
  with Cons show ?case by auto
qed

lemma clean_plain:
  assumes "obj \<noteq> []" "hd obj = CHR ''{''" "last obj = CHR ''}''"
    and "list_all isspace_char pre" "list_all isspace_char post"
  shows "clean (pre @ obj @ post) = obj"
proof -
  have s: "strip (pre @ obj @ post) = obj"
    using assms by (intro strip_core) (simp_all add: isspace_char_def cp_def)
  have "\<not> startswith obj fence"
    using assms(1,2) by (cases obj) (simp_all add: startswith_def fence_def)
  with s show ?thesis by (simp add: clean_def Let_def)
qed

lemma clean_around:
  assumes "obj \<noteq> []" "hd obj = CHR ''{''" "last obj = CHR ''}''"
    and "startswith (strip (pre @ obj @ post)) fence \<longrightarrow> \<not> contains obj fence"
  shows "\<exists>P Q. clean (pre @ obj @ post) = P @ obj @ Q \<and> set P \<subseteq> set pre \<and> set Q \<subseteq> set post"
proof -
  have sp: "\<not> isspace_char (hd obj)" "\<not> isspace_char (last obj)"
    using assms(2,3) by (simp_all add: isspace_char_def cp_def)
  have s0: "strip (pre @ obj @ post) = lstrip pre @ obj @ rstrip post"
    using assms(1) sp by (rule strip_middle)
  show ?thesis
  proof (cases "startswith (strip (pre @ obj @ post)) fence")
    case False
    then have "clean (pre @ obj @ post) = lstrip pre @ obj @ rstrip post"
      using s0 by (simp add: clean_def Let_def)
    then show ?thesis
      using set_lstrip [of pre] set_rstrip [of post] by blast
  next
    case True
    with assms(4) have nc: "\<not> contains obj fence" by simp
    then have ncj: "\<not> contains obj fence_json"
      using contains_fence_json by blast
    let ?p1 = "replace (lstrip pre) fence_json []" and ?q1 = "replace (rstrip post) fence_json []"
    let ?p2 = "replace ?p1 fence []" and ?q2 = "replace ?q1 fence []"
    have r1: "replace (lstrip pre @ obj @ rstrip post) fence_json [] = ?p1 @ obj @ ?q1"
      using assms(1,2,3) ncj by (intro replace_around) (simp_all add: fence_json_def)
    have r2: "replace (?p1 @ obj @ ?q1) fence [] = ?p2 @ obj @ ?q2"
      using assms(1,2,3) nc by (intro replace_around) (simp_all add: fence_def)
    have s2: "strip (?p2 @ obj @ ?q2) = lstrip ?p2 @ obj @ rstrip ?q2"
      using assms(1) sp by (rule strip_middle)
    have c: "clean (pre @ obj @ post) = lstrip ?p2 @ obj @ rstrip ?q2"
      using True s0 r1 r2 s2 by (simp add: clean_def Let_def)
    have "set (lstrip ?p2) \<subseteq> set ?p2" by (rule set_lstrip)
    also have "\<dots> \<subseteq> set ?p1" by (rule set_replace)
    also have "\<dots> \<subseteq> set (lstrip pre)" by (rule set_replace)
    also have "\<dots> \<subseteq> set pre" by (rule set_lstrip)
    finally have P: "set (lstrip ?p2) \<subseteq> set pre" .
    have "set (rstrip ?q2) \<subseteq> set ?q2" by (rule set_rstrip)
    also have "\<dots> \<subseteq> set ?q1" by (rule set_replace)
    also have "\<dots> \<subseteq> set (rstrip post)" by (rule set_replace)
    also have "\<dots> \<subseteq> set post" by (rule set_rstrip)
    finally have Q: "set (rstrip ?q2) \<subseteq> set post" .
    from c P Q show ?thesis by blast
  qed
qed

lemma salvage_around:
  assumes "txt \<noteq> []" and "clean txt = P @ obj @ Q"
    and "obj \<noteq> []" "hd obj = CHR ''{''" "last obj = CHR ''}''"
    and "CHR ''{'' \<notin> set P" and "CHR ''}'' \<notin> set Q"
    and "loads obj = Some v"
  shows "extract_json_from_text loads txt =
     (case loads (clean txt) of None \<Rightarrow> Inr v | Some w \<Rightarrow> Inr w)"
proof -
  obtain mid where obj: "obj = CHR ''{'' # mid"
    using assms(3,4) by (cases obj) auto
  obtain ini where obj': "obj = ini @ [CHR ''}'']"
    using assms(3,5) by (cases obj rule: rev_cases) auto
  have f: "str_find (P @ obj @ Q) ''{'' = int (length P)"
    using find_from_skip [OF assms(6), of 0 "mid @ Q"] by (simp add: str_find_def obj)
  have r: "str_rfind (P @ obj @ Q) ''}'' = int (length P + length ini)"
    using rfind_from_skip [OF assms(7), of 0 "P @ ini"] by (simp add: str_rfind_def obj')
  have len: "length obj = length ini + 1"
    by (simp add: obj')
  have sl: "str_slice (P @ obj @ Q) (int (length P)) (int (length P + length ini) + 1) = obj"
    using slice_middle [of P obj Q] len by (simp add: add.commute)
  show ?thesis
    using assms(1,2,8) f r sl
    by (simp add: extract_json_from_text_def Let_def split: option.splits)
qed

lemma salvage_recovery:
  assumes "obj \<noteq> []" "hd obj = CHR ''{''" "last obj = CHR ''}''"
    and "CHR ''{'' \<notin> set pre" and "CHR ''}'' \<notin> set post"
    and "startswith (strip (pre @ obj @ post)) fence \<longrightarrow> \<not> contains obj fence"
    and "loads obj = Some v"
  shows "extract_json_from_text loads (pre @ obj @ post) =
     (case loads (clean (pre @ obj @ post)) of None \<Rightarrow> Inr v | Some w \<Rightarrow> Inr w)"
proof -
  obtain P Q where c: "clean (pre @ obj @ post) = P @ obj @ Q"
    and P: "set P \<subseteq> set pre" and Q: "set Q \<subseteq> set post"
    using clean_around [OF assms(1,2,3,6)] by blast
  have nP: "CHR ''{'' \<notin> set P" and nQ: "CHR ''}'' \<notin> set Q"
    using assms(4,5) P Q by auto
  have ne: "pre @ obj @ post \<noteq> []"
    using assms(1) by simp
  show ?thesis
    using ne c assms(1,2,3) nP nQ assms(7) by (rule salvage_around)
qed

lemma salvage_plain:
  assumes "obj \<noteq> []" "hd obj = CHR ''{''" "last obj = CHR ''}''"
    and "list_all isspace_char pre" "list_all isspace_char post"
    and "loads obj = Some v"
  shows "extract_json_from_text loads (pre @ obj @ post) = Inr v"
proof -
  have "pre @ obj @ post \<noteq> []"
    using assms(1) by simp
  then show ?thesis
    using clean_plain [OF assms(1,2,3,4,5)] assms(6)
    by (simp add: extract_json_from_text_def Let_def)
qed

lemma salvage_fails_iff:
  "isl (extract_json_from_text loads text) =
     (text = [] \<or>
      (loads (clean text) = None \<and>
       (CHR ''{'' \<notin> set (clean text) \<or> CHR ''}'' \<notin> set (clean text) \<or>
        loads (str_slice (clean text) (str_find (clean text) ''{'')
                 (str_rfind (clean text) ''}'' + 1)) = None)))"
  using str_find_char [of "clean text" "CHR ''{''"] str_rfind_char [of "clean text" "CHR ''}''"]
  by (auto simp: extract_json_from_text_def Let_def split: option.splits)

lemma salvage_no_braces:
  assumes "CHR ''{'' \<notin> set text \<or> CHR ''}'' \<notin> set text"
  shows "isl (extract_json_from_text loads text) = (text = [] \<or> loads (clean text) = None)"
proof -
  have "CHR ''{'' \<notin> set (clean text) \<or> CHR ''}'' \<notin> set (clean text)"
    using assms set_clean [of "text"] by auto
  then show ?thesis
    by (auto simp: salvage_fails_iff)
qed

theorem salvage_counterexample:
  \<open>CHR ''{'' \<notin> set ''5'' \<and> CHR ''}'' \<notin> set ''5''
   \<and> extract_json_from_text loads_fragment ''5'' = Inr (JInt 5)
   \<and> loads_fragment ''{"a":1}'' = Some (JDict [(''a'', JInt 1)])
   \<and> extract_json_from_text loads_fragment ''see {x}: {"a":1}'' = Inl JSONDecodeError
   \<and> extract_json_from_text loads_fragment ''[{"a":1}]'' = Inr (JList [JDict [(''a'', JInt 1)]])
   \<and> loads_fragment ''{"a":"```"}'' = Some (JDict [(''a'', JStr ''```'')])
   \<and> extract_json_from_text loads_fragment ''```\<newline>Here {"a":"```"}'' =
       Inr (JDict [(''a'', JStr [])])\<close>
proof -
  have a: "extract_json_from_text loads_fragment ''5'' = Inr (JInt 5)"
    by code_simp
  have b: \<open>loads_fragment ''{"a":1}'' = Some (JDict [(''a'', JInt 1)])\<close>
    by code_simp
  have c: \<open>extract_json_from_text loads_fragment ''see {x}: {"a":1}'' = Inl JSONDecodeError\<close>
    by code_simp
  have d: \<open>extract_json_from_text loads_fragment ''[{"a":1}]'' =
      Inr (JList [JDict [(''a'', JInt 1)]])\<close>
    by code_simp
  have e: \<open>loads_fragment ''{"a":"```"}'' = Some (JDict [(''a'', JStr ''```'')])\<close>
    by code_simp
  have f: \<open>extract_json_from_text loads_fragment ''```\<newline>Here {"a":"```"}'' =
       Inr (JDict [(''a'', JStr [])])\<close>
    by code_simp
  from a b c d e f show ?thesis by simp
qed

text \<open>
  C6, as amended. Recovery: let the text be a JSON object with any prose around it,
  where the part before the object has no \<open>{\<close>, the part after it has no \<open>}\<close> and, when
  the text starts with a code fence, the object has no \<open>```\<close>. Then the parser never
  fails: it returns the whole cleaned text decoded when that is by itself a JSON document,
  and otherwise the object, decoding the substring from the first \<open>{\<close> to the last \<open>}\<close>.
  When only whitespace surrounds the object it returns the object. Failure: the parser
  fails exactly when the text is empty, or the cleaned text is not a JSON document and it
  has no \<open>{\<close>, or no \<open>}\<close>, or the substring from the first \<open>{\<close> to the last \<open>}\<close> is not
  a JSON document. In particular a text with no \<open>{\<close> or no \<open>}\<close> fails exactly when it
  is empty or its cleaned form is not by itself a JSON document.
\<close>

theorem salvage_recovery_and_failure:
  "(obj \<noteq> [] \<and> hd obj = CHR ''{'' \<and> last obj = CHR ''}'' \<and>
    CHR ''{'' \<notin> set pre \<and> CHR ''}'' \<notin> set post \<and>
    (startswith (strip (pre @ obj @ post)) fence \<longrightarrow> \<not> contains obj fence) \<and>
    loads obj = Some v \<longrightarrow>
      extract_json_from_text loads (pre @ obj @ post) =
        (case loads (clean (pre @ obj @ post)) of None \<Rightarrow> Inr v | Some w \<Rightarrow> Inr w))
   \<and> (obj \<noteq> [] \<and> hd obj = CHR ''{'' \<and> last obj = CHR ''}'' \<and>
      list_all isspace_char pre \<and> list_all isspace_char post \<and> loads obj = Some v \<longrightarrow>
        extract_json_from_text loads (pre @ obj @ post) = Inr v)
   \<and> isl (extract_json_from_text loads txt) =
       (txt = [] \<or>
        (loads (clean txt) = None \<and>
         (CHR ''{'' \<notin> set (clean txt) \<or> CHR ''}'' \<notin> set (clean txt) \<or>
          loads (str_slice (clean txt) (str_find (clean txt) ''{'')
                   (str_rfind (clean txt) ''}'' + 1)) = None)))
   \<and> (CHR ''{'' \<notin> set txt \<or> CHR ''}'' \<notin> set txt \<longrightarrow>
        isl (extract_json_from_text loads txt) = (txt = [] \<or> loads (clean txt) = None))"
  using salvage_recovery [of "obj" "pre" "post" "loads" "v"]
    salvage_plain [of "obj" "pre" "post" "loads" "v"]
    salvage_fails_iff [of "loads" "txt"] salvage_no_braces [of "txt" "loads"]
  by blast

theorem salvage_recovery_and_failure_witness:
  \<open>loads_fragment ''{"a":1}'' = Some (JDict [(''a'', JInt 1)])
   \<and> extract_json_from_text loads_fragment ''Sure! {"a":1} hope it helps'' =
       Inr (JDict [(''a'', JInt 1)])
   \<and> extract_json_from_text loads_fragment ''```json\<newline>Here: {"a":1}\<newline>```'' =
       Inr (JDict [(''a'', JInt 1)])
   \<and> extract_json_from_text loads_fragment ''  {"a":1}\<newline>'' = Inr (JDict [(''a'', JInt 1)])
   \<and> isl (extract_json_from_text loads_fragment ''no braces at all'')\<close>
proof -
  have o: \<open>loads_fragment ''{"a":1}'' = Some (JDict [(''a'', JInt 1)])\<close>
    by code_simp
  have h: \<open>''{"a":1}'' \<noteq> [] \<and> hd ''{"a":1}'' = CHR ''{'' \<and> last ''{"a":1}'' = CHR ''}''\<close>
    by simp
  have nf: \<open>\<not> contains ''{"a":1}'' fence\<close>
    by code_simp
  note T1 = salvage_recovery_and_failure [of \<open>''{"a":1}''\<close> "''Sure! ''" "'' hope it helps''"
      loads_fragment "JDict [(''a'', JInt 1)]" "''no braces at all''"]
  have H1: \<open>''{"a":1}'' \<noteq> [] \<and> hd ''{"a":1}'' = CHR ''{'' \<and> last ''{"a":1}'' = CHR ''}'' \<and>
    CHR ''{'' \<notin> set ''Sure! '' \<and> CHR ''}'' \<notin> set '' hope it helps'' \<and>
    (startswith (strip (''Sure! '' @ ''{"a":1}'' @ '' hope it helps'')) fence \<longrightarrow>
       \<not> contains ''{"a":1}'' fence) \<and>
    loads_fragment ''{"a":1}'' = Some (JDict [(''a'', JInt 1)])\<close>
    using o h nf by (intro conjI impI) simp_all
  have w1: \<open>loads_fragment (clean (''Sure! '' @ ''{"a":1}'' @ '' hope it helps'')) = None\<close>
    by code_simp
  have r1: \<open>extract_json_from_text loads_fragment (''Sure! '' @ ''{"a":1}'' @ '' hope it helps'') =
      Inr (JDict [(''a'', JInt 1)])\<close>
    using T1 [THEN conjunct1, THEN mp, OF H1] w1 by simp
  note T2 = salvage_recovery_and_failure [of \<open>''{"a":1}''\<close> "''```json\<newline>Here: ''"
      "''\<newline>```''" loads_fragment "JDict [(''a'', JInt 1)]" "[]"]
  have H2: \<open>''{"a":1}'' \<noteq> [] \<and> hd ''{"a":1}'' = CHR ''{'' \<and> last ''{"a":1}'' = CHR ''}'' \<and>
    CHR ''{'' \<notin> set ''```json\<newline>Here: '' \<and> CHR ''}'' \<notin> set ''\<newline>```'' \<and>
    (startswith (strip (''```json\<newline>Here: '' @ ''{"a":1}'' @ ''\<newline>```'')) fence \<longrightarrow>
       \<not> contains ''{"a":1}'' fence) \<and>
    loads_fragment ''{"a":1}'' = Some (JDict [(''a'', JInt 1)])\<close>
    using o h nf by (intro conjI impI) simp_all
  have w2: \<open>loads_fragment (clean (''```json\<newline>Here: '' @ ''{"a":1}'' @ ''\<newline>```'')) = None\<close>
    by code_simp
  have r2: \<open>extract_json_from_text loads_fragment
      (''```json\<newline>Here: '' @ ''{"a":1}'' @ ''\<newline>```'') = Inr (JDict [(''a'', JInt 1)])\<close>
    using T2 [THEN conjunct1, THEN mp, OF H2] w2 by simp
  note T3 = salvage_recovery_and_failure [of \<open>''{"a":1}''\<close> "''  ''" "''\<newline>''"
      loads_fragment "JDict [(''a'', JInt 1)]" "[]"]
  have ws: "list_all isspace_char ''  '' \<and> list_all isspace_char ''\<newline>''"
    by code_simp
  have H3: \<open>''{"a":1}'' \<noteq> [] \<and> hd ''{"a":1}'' = CHR ''{'' \<and> last ''{"a":1}'' = CHR ''}'' \<and>
    list_all isspace_char ''  '' \<and> list_all isspace_char ''\<newline>'' \<and>
    loads_fragment ''{"a":1}'' = Some (JDict [(''a'', JInt 1)])\<close>
    using o h ws by (intro conjI) simp_all
  have r3: \<open>extract_json_from_text loads_fragment (''  '' @ ''{"a":1}'' @ ''\<newline>'') =
      Inr (JDict [(''a'', JInt 1)])\<close>
    by (rule T3 [THEN conjunct2, THEN conjunct1, THEN mp, OF H3])
  have n: "CHR ''{'' \<notin> set ''no braces at all''"
    by simp
  have c: "loads_fragment (clean ''no braces at all'') = None"
    by code_simp
  have "isl (extract_json_from_text loads_fragment ''no braces at all'') =
      (''no braces at all'' = [] \<or> loads_fragment (clean ''no braces at all'') = None)"
    by (rule T1 [THEN conjunct2, THEN conjunct2, THEN conjunct2, THEN mp, OF disjI1 [OF n]])
  with c have i: "isl (extract_json_from_text loads_fragment ''no braces at all'')"
    by simp
  from o r1 r2 r3 i show ?thesis by simp
qed

end
